theory Spec2Isabelle
  imports Complex_Main
begin

section \<open>Text primitives\<close>

text \<open>
  Program text is a \<open>string\<close> whose characters stand for ASCII code points.  The
  character classes below are those of Python's \<open>str.isspace\<close> / \<open>\s\<close> and \<open>\d\<close>
  restricted to ASCII; \<open>upper\<close> is \<open>str.upper\<close> on ASCII letters.
\<close>

definition is_digit :: "char \<Rightarrow> bool" where
  "is_digit c = (c \<in> set ''0123456789'')"

definition is_space :: "char \<Rightarrow> bool" where
  "is_space c = (c \<in> set [CHR 0x09, CHR 0x0A, CHR 0x0B, CHR 0x0C, CHR 0x0D,
                          CHR 0x1C, CHR 0x1D, CHR 0x1E, CHR 0x1F, CHR '' ''])"

definition upper_char :: "char \<Rightarrow> char" where
  "upper_char c =
     (case map_of (zip ''abcdefghijklmnopqrstuvwxyz'' ''ABCDEFGHIJKLMNOPQRSTUVWXYZ'') c of
        Some u \<Rightarrow> u
      | None \<Rightarrow> c)"

definition upper :: "string \<Rightarrow> string" where
  "upper s = map upper_char s"

definition lower_char :: "char \<Rightarrow> char" where
  "lower_char c =
     (case map_of (zip ''ABCDEFGHIJKLMNOPQRSTUVWXYZ'' ''abcdefghijklmnopqrstuvwxyz'') c of
        Some l \<Rightarrow> l
      | None \<Rightarrow> c)"

text \<open>\<open>str.strip()\<close>: remove leading and trailing whitespace.\<close>

definition strip :: "string \<Rightarrow> string" where
  "strip s = rev (dropWhile is_space (rev (dropWhile is_space s)))"

text \<open>\<open>str.split(sep)\<close> for a one-character separator: always at least one piece.\<close>

fun split_on :: "char \<Rightarrow> string \<Rightarrow> string list" where
  "split_on sep [] = [[]]"
| "split_on sep (c # cs) =
     (if c = sep then [] # split_on sep cs
      else (case split_on sep cs of
              p # ps \<Rightarrow> (c # p) # ps
            | [] \<Rightarrow> [[c]]))"

definition digit_val :: "char \<Rightarrow> nat" where
  "digit_val c =
     (case map_of (zip ''0123456789'' [0, 1, 2, 3, 4, 5, 6, 7, 8, 9]) c of
        Some d \<Rightarrow> d
      | None \<Rightarrow> 0)"

text \<open>The number a string of decimal digits denotes.\<close>

definition int_of_digits :: "string \<Rightarrow> nat" where
  "int_of_digits ds = foldl (\<lambda>n c. 10 * n + digit_val c) 0 ds"

text \<open>
  The one exception the conversions raise.  A function that can raise returns
  \<open>py_error + 'a\<close>, with \<open>Inl\<close> for the exception.
\<close>

datatype py_error = ValueError

text \<open>
  \<open>int(g)\<close> on a string of decimal digits.  Python integers are unbounded, but CPython
  converts a text of more than \<open>sys.int_info.default_max_str_digits = 4300\<close> digits
  (leading zeros counted) only after the limit has been raised, and raises
  \<open>ValueError\<close> otherwise.
\<close>

definition max_str_digits :: int where
  "max_str_digits = 4300"

definition py_int :: "string \<Rightarrow> py_error + nat" where
  "py_int ds =
     (if max_str_digits < int (length ds) then Inl ValueError else Inr (int_of_digits ds))"

text \<open>The decimal rendering of a line number inside an f-string.\<close>

fun str_of_nat :: "nat \<Rightarrow> string" where
  "str_of_nat n =
     (if n < 10 then [''0123456789'' ! n]
      else str_of_nat (n div 10) @ [''0123456789'' ! (n mod 10)])"

declare str_of_nat.simps [simp del]

section \<open>Python floats\<close>

text \<open>
  A float is modelled by the exact value its literal denotes: a rational, or one of the
  three non-finite values.  Rounding to binary64 and overflow are not modelled.
\<close>

datatype pyfloat = Fin rat | PInf | NInf | NaN

text \<open>\<open>a < b\<close> on floats; every comparison with NaN is false.  \<open>a > b\<close> is \<open>py_lt b a\<close>.\<close>

fun py_lt :: "pyfloat \<Rightarrow> pyfloat \<Rightarrow> bool" where
  "py_lt NaN _ = False"
| "py_lt _ NaN = False"
| "py_lt (Fin a) (Fin b) = (a < b)"
| "py_lt (Fin a) PInf = True"
| "py_lt (Fin a) NInf = False"
| "py_lt PInf _ = False"
| "py_lt NInf NInf = False"
| "py_lt NInf _ = True"

definition pow10 :: "int \<Rightarrow> rat" where
  "pow10 k = (if 0 \<le> k then 10 ^ nat k else 1 / 10 ^ nat (- k))"

text \<open>
  Digit-group underscores, as CPython removes them before parsing: an underscore must
  stand between two digits.  \<open>prev\<close> is the previous character (NUL at the start).
\<close>

fun strip_underscores :: "char \<Rightarrow> string \<Rightarrow> string option" where
  "strip_underscores prev [] = (if prev = CHR ''_'' then None else Some [])"
| "strip_underscores prev (c # cs) =
     (if c = CHR ''_'' then
        (if is_digit prev then strip_underscores c cs else None)
      else if prev = CHR ''_'' \<and> \<not> is_digit c then None
      else map_option ((#) c) (strip_underscores c cs))"

text \<open>The optional exponent part; it must reach the end of the string.\<close>

definition parse_exponent :: "string \<Rightarrow> int option" where
  "parse_exponent s =
     (case s of
        [] \<Rightarrow> Some 0
      | c # r \<Rightarrow>
          if c = CHR ''e'' \<or> c = CHR ''E'' then
            (let (neg, ds) = (case r of
                                [] \<Rightarrow> (False, [])
                              | d # r' \<Rightarrow> if d = CHR ''-'' then (True, r')
                                          else if d = CHR ''+'' then (False, r')
                                          else (False, r))
             in if ds \<noteq> [] \<and> (\<forall>d \<in> set ds. is_digit d)
                then Some (if neg then - int (int_of_digits ds) else int (int_of_digits ds))
                else None)
          else None)"

text \<open>
  CPython's \<open>strtod\<close> refuses a number with more than \<open>MAX_DIGITS = 10^9\<close> digits: it counts
  the digits before and after the point without the leading zeros, and separately the
  digits after the point, and rejects the text when either count exceeds the bound.
\<close>

definition max_float_digits :: int where
  "max_float_digits = 1000000000"

definition digits_in_range :: "string \<Rightarrow> string \<Rightarrow> bool" where
  "digits_in_range ip fp =
     (let sig = dropWhile (\<lambda>c. c = CHR ''0'') ip;
          ndigits = (if sig = [] then length (dropWhile (\<lambda>c. c = CHR ''0'') fp)
                     else length sig + length fp)
      in int ndigits \<le> max_float_digits \<and> int (length fp) \<le> max_float_digits)"

text \<open>An unsigned decimal number: digits, optional point, digits, optional exponent.\<close>

definition parse_unsigned :: "string \<Rightarrow> rat option" where
  "parse_unsigned s =
     (let ip = takeWhile is_digit s;
          r1 = dropWhile is_digit s;
          (fp, r2) = (case r1 of
                        [] \<Rightarrow> ([], [])
                      | c # r \<Rightarrow> if c = CHR ''.''
                                 then (takeWhile is_digit r, dropWhile is_digit r)
                                 else ([], r1))
      in if ip = [] \<and> fp = [] then None
         else if \<not> digits_in_range ip fp then None
         else (case parse_exponent r2 of
                 None \<Rightarrow> None
               | Some e \<Rightarrow>
                   Some (of_nat (int_of_digits (ip @ fp)) * pow10 (e - int (length fp)))))"

text \<open>
  The whitespace \<open>float\<close> removes around a number is not that of \<open>str.strip\<close>: it is
  the six characters of C's \<open>isspace\<close>, so U+001C to U+001F stay in place and make the
  text invalid.  In a text with a character above 127, \<open>float\<close> first turns the Unicode
  whitespace into spaces; below 256 that is U+0085 and U+00A0.
\<close>

definition is_float_space :: "char \<Rightarrow> bool" where
  "is_float_space c = (c \<in> set [CHR 0x09, CHR 0x0A, CHR 0x0B, CHR 0x0C, CHR 0x0D, CHR '' '',
                                CHR 0x85, CHR 0xA0])"

definition float_strip :: "string \<Rightarrow> string" where
  "float_strip s = rev (dropWhile is_float_space (rev (dropWhile is_float_space s)))"

text \<open>
  \<open>float(text)\<close>: \<open>None\<close> is \<open>ValueError\<close>.  Surrounding whitespace is stripped, a sign
  is optional, and the spellings inf, infinity and nan are accepted in any case.
\<close>

definition py_float :: "string \<Rightarrow> pyfloat option" where
  "py_float text =
     (case strip_underscores (CHR 0x00) text of
        None \<Rightarrow> None
      | Some t \<Rightarrow>
          (let s = float_strip t;
               (neg, body) = (case s of
                                [] \<Rightarrow> (False, [])
                              | c # r \<Rightarrow> if c = CHR ''-'' then (True, r)
                                         else if c = CHR ''+'' then (False, r)
                                         else (False, s));
               low = map lower_char body
           in if low = ''inf'' \<or> low = ''infinity'' then Some (if neg then NInf else PInf)
              else if low = ''nan'' then Some NaN
              else (case parse_unsigned body of
                      None \<Rightarrow> None
                    | Some v \<Rightarrow> Some (Fin (if neg then - v else v)))))"

section \<open>The analyzer's regular expressions\<close>

text \<open>
  Each compiled pattern of \<open>NCAnalyzer.analyze\<close> is modelled by a matcher that tries the
  pattern at the start of a string, and by the scan (\<open>search\<close>: leftmost match,
  \<open>findall\<close>: all non-overlapping matches from left to right) over its suffixes.
\<close>

text \<open>\<open>re_comment = \((.*?)\)\<close>, \<open>search\<close>: group 1 of the leftmost match, if any.
  The lazy body runs from the first opening parenthesis to the next closing one.\<close>

definition re_comment_search :: "string \<Rightarrow> string option" where
  "re_comment_search line =
     (case dropWhile (\<lambda>c. c \<noteq> CHR ''('') line of
        [] \<Rightarrow> None
      | _ # r \<Rightarrow> if CHR '')'' \<in> set r
                 then Some (takeWhile (\<lambda>c. c \<noteq> CHR '')'') r)
                 else None)"

text \<open>\<open>\d+\.?\d*\<close> at the start of a string: the matched text and the rest.\<close>

definition match_decimal :: "string \<Rightarrow> (string \<times> string) option" where
  "match_decimal s =
     (let ip = takeWhile is_digit s; r1 = dropWhile is_digit s
      in if ip = [] then None
         else (case r1 of
                 [] \<Rightarrow> Some (ip, [])
               | c # r2 \<Rightarrow>
                   if c = CHR ''.''
                   then Some (ip @ CHR ''.'' # takeWhile is_digit r2, dropWhile is_digit r2)
                   else Some (ip, r1)))"

text \<open>\<open>re_coord = ([XYZ])\s*([-]?\d+\.?\d*)\<close> at the start of a string: the two groups
  and the rest.  A minus sign not followed by a digit makes the match fail.\<close>

definition re_coord_match :: "string \<Rightarrow> ((string \<times> string) \<times> string) option" where
  "re_coord_match s =
     (case s of
        [] \<Rightarrow> None
      | c # cs \<Rightarrow>
          if c \<in> set ''XYZ'' then
            (let r = dropWhile is_space cs;
                 (sign, r') = (case r of
                                 [] \<Rightarrow> ([], r)
                               | d # t \<Rightarrow> if d = CHR ''-'' then ([d], t) else ([], r))
             in case match_decimal r' of
                  None \<Rightarrow> None
                | Some (num, rest) \<Rightarrow> Some (([c], sign @ num), rest))
          else None)"

function re_coord_findall :: "string \<Rightarrow> (string \<times> string) list" where
  "re_coord_findall [] = []"
| "re_coord_findall (c # cs) =
     (case re_coord_match (c # cs) of
        Some (tok, rest) \<Rightarrow> tok # re_coord_findall rest
      | None \<Rightarrow> re_coord_findall cs)"
  by pat_completeness auto
termination
proof (relation "measure length")
  fix c :: char and cs :: string and x :: "(string \<times> string) \<times> string"
    and tok :: "string \<times> string" and rest :: string
  assume m: "re_coord_match (c # cs) = Some x" and x: "(tok, rest) = x"
  have dec: "length r \<le> length u" if h: "match_decimal u = Some (n, r)" for u n r
  proof -
    from h consider "r = dropWhile is_digit u"
      | t where "dropWhile is_digit u = CHR ''.'' # t" "r = dropWhile is_digit t"
      by (auto simp: match_decimal_def Let_def split: if_splits list.splits)
    then show ?thesis
    proof cases
      case 1
      then show ?thesis by (simp add: length_dropWhile_le)
    next
      case 2
      have "length r \<le> length t"
        unfolding 2 by (rule length_dropWhile_le)
      moreover have "length (CHR ''.'' # t) \<le> length u"
        unfolding 2 (1) [symmetric] by (rule length_dropWhile_le)
      ultimately show ?thesis by simp
    qed
  qed
  define r where "r = dropWhile is_space cs"
  have ws: "length r \<le> length cs"
    unfolding r_def by (rule length_dropWhile_le)
  from m x have m':
    "(case (case r of [] \<Rightarrow> ([], r)
            | d # t \<Rightarrow> if d = CHR ''-'' then ([d], t) else ([], r)) of
        (sign, r') \<Rightarrow>
          (case match_decimal r' of
             None \<Rightarrow> None
           | Some (num, rest) \<Rightarrow> Some (([c], sign @ num), rest))) = Some (tok, rest)"
    unfolding re_coord_match_def Let_def r_def by (simp split: if_splits)
  have "\<exists>u num. match_decimal u = Some (num, rest) \<and> length u \<le> length r"
  proof (cases r)
    case Nil
    with m' show ?thesis by (auto split: option.splits)
  next
    case (Cons d t)
    with m' show ?thesis by (cases "d = CHR ''-''") (auto split: option.splits)
  qed
  then obtain u num where "match_decimal u = Some (num, rest)" "length u \<le> length r"
    by blast
  with dec [of u num rest] ws show "(rest, c # cs) \<in> measure length" by simp
qed simp_all

text \<open>\<open>re_g = G(\d+)\<close>, \<open>findall\<close>: the digit groups.\<close>

function re_g_findall :: "string \<Rightarrow> string list" where
  "re_g_findall [] = []"
| "re_g_findall (c # cs) =
     (if c = CHR ''G'' \<and> takeWhile is_digit cs \<noteq> []
      then takeWhile is_digit cs # re_g_findall (dropWhile is_digit cs)
      else re_g_findall cs)"
  by pat_completeness auto
termination
  by (relation "measure length") (auto simp: length_dropWhile_le less_Suc_eq_le)

text \<open>\<open>re_s = S\s*(\d+)\<close>, \<open>search\<close>: group 1 of the leftmost match.\<close>

fun re_s_search :: "string \<Rightarrow> string option" where
  "re_s_search [] = None"
| "re_s_search (c # cs) =
     (if c = CHR ''S'' \<and> takeWhile is_digit (dropWhile is_space cs) \<noteq> []
      then Some (takeWhile is_digit (dropWhile is_space cs))
      else re_s_search cs)"

text \<open>\<open>re_f = F\s*(\d+\.?\d*)\<close>, \<open>search\<close>: group 1 of the leftmost match.\<close>

fun re_f_search :: "string \<Rightarrow> string option" where
  "re_f_search [] = None"
| "re_f_search (c # cs) =
     (if c = CHR ''F'' then
        (case match_decimal (dropWhile is_space cs) of
           Some (num, rest) \<Rightarrow> Some num
         | None \<Rightarrow> re_f_search cs)
      else re_f_search cs)"

section \<open>BlockData\<close>

text \<open>
  Both dictionaries of a block are created with the keys X, Y and Z and no key is ever
  added or removed, so a dictionary is a total function on the three axes.  A key read
  from program text is a string; \<open>axis_of_key\<close> is the membership test
  \<open>axis in target\<close>.
\<close>

datatype axis = AxisX | AxisY | AxisZ

definition axis_of_key :: "string \<Rightarrow> axis option" where
  "axis_of_key k =
     (if k = ''X'' then Some AxisX
      else if k = ''Y'' then Some AxisY
      else if k = ''Z'' then Some AxisZ
      else None)"

text \<open>The one message the analyzer writes: G96 used on line \<open>n\<close> with no G50 before it.\<close>

datatype message = G96_without_G50 nat

record BlockData =
  name :: string
  rapid :: "axis \<Rightarrow> pyfloat list"
  cut :: "axis \<Rightarrow> pyfloat list"
  s_vals :: "pyfloat list"
  f_vals :: "pyfloat list"
  errors :: "message list"

definition new_block :: "string \<Rightarrow> BlockData" where
  "new_block nm =
     \<lparr>name = nm, rapid = (\<lambda>_. []), cut = (\<lambda>_. []), s_vals = [], f_vals = [], errors = []\<rparr>"

definition add_val :: "BlockData \<Rightarrow> string \<Rightarrow> pyfloat \<Rightarrow> bool \<Rightarrow> BlockData" where
  "add_val blk key val is_rapid =
     (case axis_of_key key of
        None \<Rightarrow> blk
      | Some a \<Rightarrow>
          if is_rapid then blk\<lparr>rapid := (rapid blk)(a := rapid blk a @ [val])\<rparr>
          else blk\<lparr>cut := (cut blk)(a := cut blk a @ [val])\<rparr>)"

text \<open>
  Python's \<open>min\<close> and \<open>max\<close> keep the first element and replace it by a later one that
  compares strictly below (above) it.  They are only called on non-empty lists.
\<close>

definition py_min :: "pyfloat \<Rightarrow> pyfloat list \<Rightarrow> pyfloat" where
  "py_min x xs = fold (\<lambda>v m. if py_lt v m then v else m) xs x"

definition py_max :: "pyfloat \<Rightarrow> pyfloat list \<Rightarrow> pyfloat" where
  "py_max x xs = fold (\<lambda>v m. if py_lt m v then v else m) xs x"

text \<open>\<open>(min(vals), max(vals)) if vals else (None, None)\<close>\<close>

definition min_max :: "pyfloat list \<Rightarrow> pyfloat option \<times> pyfloat option" where
  "min_max vals =
     (case vals of
        [] \<Rightarrow> (None, None)
      | x # xs \<Rightarrow> (Some (py_min x xs), Some (py_max x xs)))"

definition selected_vals :: "BlockData \<Rightarrow> axis \<Rightarrow> string \<Rightarrow> pyfloat list" where
  "selected_vals blk a mode =
     (if mode = ''rapid'' \<or> mode = ''both'' then rapid blk a else []) @
     (if mode = ''cut'' \<or> mode = ''both'' then cut blk a else [])"

definition get_raw_min_max :: "BlockData \<Rightarrow> axis \<Rightarrow> string \<Rightarrow> pyfloat option \<times> pyfloat option"
  where "get_raw_min_max blk a mode = min_max (selected_vals blk a mode)"

definition get_max_s_f :: "BlockData \<Rightarrow> pyfloat \<times> pyfloat" where
  "get_max_s_f blk =
     ((case s_vals blk of [] \<Rightarrow> Fin 0 | x # xs \<Rightarrow> py_max x xs),
      (case f_vals blk of [] \<Rightarrow> Fin 0 | x # xs \<Rightarrow> py_max x xs))"

section \<open>NCAnalyzer.analyze\<close>

text \<open>
  \<open>self.current_block\<close> always aliases the last element of \<open>self.blocks\<close>.  The scan
  state keeps that block apart from the blocks before it; the list the analyzer
  returns is \<open>closed_blocks @ [current_block]\<close>.  The two flags are the locals
  \<open>has_g50_global\<close> and \<open>is_rapid_mode\<close> of \<open>analyze\<close>.
\<close>

record scan_state =
  closed_blocks :: "BlockData list"
  current_block :: BlockData
  has_g50_global :: bool
  is_rapid_mode :: bool

text \<open>\<open>line.split(';')[0].strip()\<close>: the text before the first semicolon, stripped.\<close>

definition line_content :: "string \<Rightarrow> string" where
  "line_content line = strip (takeWhile (\<lambda>c. c \<noteq> CHR '';'') line)"

text \<open>
  \<open>[int(g) for g in re_g.findall(line_content.upper())]\<close>: the comprehension stands
  outside any \<open>try\<close>, so the first group that \<open>int\<close> refuses ends \<open>analyze\<close>.
\<close>

fun ints_of :: "string list \<Rightarrow> py_error + nat list" where
  "ints_of [] = Inr []"
| "ints_of (g # gs) =
     (case py_int g of
        Inl e \<Rightarrow> Inl e
      | Inr n \<Rightarrow> (case ints_of gs of Inl e \<Rightarrow> Inl e | Inr ns \<Rightarrow> Inr (n # ns)))"

definition g_codes_of :: "string \<Rightarrow> py_error + nat list" where
  "g_codes_of content = ints_of (re_g_findall (upper content))"

text \<open>Block switching: the comment is searched in the original line.\<close>

definition switch_block :: "scan_state \<Rightarrow> nat \<Rightarrow> string \<Rightarrow> scan_state" where
  "switch_block st line_num line =
     (case re_comment_search line of
        None \<Rightarrow> st
      | Some g \<Rightarrow>
          st\<lparr>closed_blocks := closed_blocks st @ [current_block st],
             current_block := new_block (''Line'' @ str_of_nat line_num @ '': '' @ strip g)\<rparr>)"

text \<open>The two mode tests, one after the other.\<close>

definition update_mode :: "nat list \<Rightarrow> bool \<Rightarrow> bool" where
  "update_mode g_codes is_rapid =
     (let r1 = (if 0 \<in> set g_codes then True else is_rapid)
      in if (\<exists>g \<in> set g_codes. g \<in> set [1, 2, 3]) then False else r1)"

definition parse_value :: "string \<Rightarrow> pyfloat option" where
  "parse_value text = py_float text"

text \<open>The loop over \<open>coords\<close>: a value that does not parse is skipped.\<close>

definition add_coords :: "BlockData \<Rightarrow> (string \<times> string) list \<Rightarrow> bool \<Rightarrow> BlockData" where
  "add_coords blk coords is_rapid =
     foldl (\<lambda>b (axis, val_str).
              case parse_value val_str of
                None \<Rightarrow> b
              | Some val \<Rightarrow> add_val b axis val is_rapid)
       blk coords"

text \<open>
  S and F: \<open>float\<close> is called here outside any \<open>try\<close>, so a failure (a digit group that
  \<open>float\<close> refuses for its length) leaves \<open>analyze\<close>.
\<close>

definition add_s :: "BlockData \<Rightarrow> string \<Rightarrow> py_error + BlockData" where
  "add_s blk up =
     (case re_s_search up of
        None \<Rightarrow> Inr blk
      | Some g \<Rightarrow>
          (case py_float g of
             None \<Rightarrow> Inl ValueError
           | Some v \<Rightarrow> Inr (blk\<lparr>s_vals := s_vals blk @ [v]\<rparr>)))"

definition add_f :: "BlockData \<Rightarrow> string \<Rightarrow> py_error + BlockData" where
  "add_f blk up =
     (case re_f_search up of
        None \<Rightarrow> Inr blk
      | Some g \<Rightarrow>
          (case py_float g of
             None \<Rightarrow> Inl ValueError
           | Some v \<Rightarrow> Inr (blk\<lparr>f_vals := f_vals blk @ [v]\<rparr>)))"

text \<open>The lathe check at the end of the loop body.\<close>

definition simple_check :: "string \<Rightarrow> nat list \<Rightarrow> nat \<Rightarrow> scan_state \<Rightarrow> scan_state" where
  "simple_check machine_type g_codes line_num st =
     (if machine_type = ''FANUC_Lathe'' then
        (let st1 = (if 50 \<in> set g_codes then st\<lparr>has_g50_global := True\<rparr> else st)
         in if 96 \<in> set g_codes \<and> \<not> has_g50_global st1
            then st1\<lparr>current_block :=
                       (current_block st1)\<lparr>errors :=
                          errors (current_block st1) @ [G96_without_G50 line_num]\<rparr>\<rparr>
            else st1)
      else st)"

text \<open>The body of the loop over the lines.\<close>

definition process_line :: "string \<Rightarrow> scan_state \<Rightarrow> nat \<Rightarrow> string \<Rightarrow> py_error + scan_state"
  where
  "process_line machine_type st line_num line =
     (let content = line_content line in
      if content = [] then Inr st
      else
        (let st1 = switch_block st line_num line
         in case g_codes_of content of
              Inl e \<Rightarrow> Inl e
            | Inr g_codes \<Rightarrow>
                (let st2 = st1\<lparr>is_rapid_mode := update_mode g_codes (is_rapid_mode st1)\<rparr>;
                     blk = add_coords (current_block st2) (re_coord_findall (upper content))
                             (is_rapid_mode st2)
                 in case add_s blk (upper content) of
                      Inl e \<Rightarrow> Inl e
                    | Inr blk1 \<Rightarrow>
                        (case add_f blk1 (upper content) of
                           Inl e \<Rightarrow> Inl e
                         | Inr blk2 \<Rightarrow>
                             Inr (simple_check machine_type g_codes line_num
                                    (st2\<lparr>current_block := blk2\<rparr>))))))"

text \<open>\<open>for i, line in enumerate(lines)\<close> with \<open>line_num = i + 1\<close>.\<close>

fun scan :: "string \<Rightarrow> scan_state \<Rightarrow> nat \<Rightarrow> string list \<Rightarrow> py_error + scan_state" where
  "scan machine_type st i [] = Inr st"
| "scan machine_type st i (line # lines) =
     (case process_line machine_type st (i + 1) line of
        Inl e \<Rightarrow> Inl e
      | Inr st' \<Rightarrow> scan machine_type st' (i + 1) lines)"

definition initial_state :: scan_state where
  "initial_state =
     \<lparr>closed_blocks = [], current_block = new_block ''Header / Setup'',
      has_g50_global = False, is_rapid_mode = True\<rparr>"

definition blocks_of :: "scan_state \<Rightarrow> BlockData list" where
  "blocks_of st = closed_blocks st @ [current_block st]"

definition analyze :: "string \<Rightarrow> string \<Rightarrow> py_error + BlockData list" where
  "analyze nc_code machine_type =
     (case scan machine_type initial_state 0 (split_on (CHR 0x0A) nc_code) of
        Inl e \<Rightarrow> Inl e
      | Inr st \<Rightarrow> Inr (blocks_of st))"

section \<open>Global statistics and the limit checker\<close>

record global_stats =
  axis_range :: "axis \<Rightarrow> pyfloat option \<times> pyfloat option"
  max_s :: pyfloat
  max_f :: pyfloat

definition get_global_stats :: "BlockData list \<Rightarrow> global_stats" where
  "get_global_stats blocks =
     \<lparr>axis_range = (\<lambda>ax. min_max (concat (map (\<lambda>blk. rapid blk ax @ cut blk ax) blocks))),
      max_s = (case concat (map s_vals blocks) of [] \<Rightarrow> Fin 0 | x # xs \<Rightarrow> py_max x xs),
      max_f = (case concat (map f_vals blocks) of [] \<Rightarrow> Fin 0 | x # xs \<Rightarrow> py_max x xs)\<rparr>"

text \<open>
  A failure description names the axis, the kind of bound, the observed value and the
  limit as the user typed it.  The three outcomes are the three label texts of
  \<open>check\<close>.
\<close>

datatype bound_kind = MinLimit | MaxLimit

datatype violation = Violation axis bound_kind pyfloat string

datatype verdict = SAFE | NO_CONSTRAINTS | VIOLATIONS "violation list"

text \<open>
  One round of the loop over the axes; the accumulator is \<open>(results, safe)\<close>.  Each
  \<open>try\<close> swallows every exception: a bound that \<open>float\<close> rejects, or a comparison with
  a missing maximum.
\<close>

definition check_axis ::
  "(axis \<Rightarrow> pyfloat option \<times> pyfloat option) \<Rightarrow> (axis \<Rightarrow> string \<times> string) \<Rightarrow> axis \<Rightarrow>
   violation list \<times> bool \<Rightarrow> violation list \<times> bool" where
  "check_axis stats entries ax acc =
     (case stats ax of
        (None, p_max) \<Rightarrow> acc
      | (Some p_min, p_max) \<Rightarrow>
          (let u_min = fst (entries ax);
               u_max = snd (entries ax);
               acc1 = (if u_min \<noteq> [] then
                         (case py_float u_min of
                            None \<Rightarrow> acc
                          | Some bound \<Rightarrow>
                              if py_lt p_min bound
                              then (fst acc @ [Violation ax MinLimit p_min u_min], False)
                              else acc)
                       else acc)
           in if u_max \<noteq> [] then
                (case (p_max, py_float u_max) of
                   (Some pm, Some bound) \<Rightarrow>
                     if py_lt bound pm
                     then (fst acc1 @ [Violation ax MaxLimit pm u_max], False)
                     else acc1
                 | _ \<Rightarrow> acc1)
              else acc1))"

definition check :: "global_stats \<Rightarrow> (axis \<Rightarrow> string \<times> string) \<Rightarrow> verdict" where
  "check stats entries =
     (let (results, safe) =
            foldl (\<lambda>acc ax. check_axis (axis_range stats) entries ax acc) ([], True)
              [AxisX, AxisY, AxisZ]
      in if safe \<and> results = [] then SAFE
         else if safe then NO_CONSTRAINTS
         else VIOLATIONS results)"

section \<open>Properties of the limit checker\<close>

lemma check_axis_no_bounds:
  "fst (entries ax) = [] \<Longrightarrow> snd (entries ax) = [] \<Longrightarrow> check_axis stats entries ax acc = acc"
  by (simp add: check_axis_def split: option.splits prod.splits)

lemma check_axis_safe_iff:
  "snd acc = (fst acc = []) \<Longrightarrow>
   snd (check_axis stats entries ax acc) = (fst (check_axis stats entries ax acc) = [])"
  by (auto simp: check_axis_def Let_def split: option.splits prod.splits)

lemma check_fold_safe_iff:
  "snd acc = (fst acc = []) \<Longrightarrow>
   snd (foldl (\<lambda>acc ax. check_axis stats entries ax acc) acc axes) =
   (fst (foldl (\<lambda>acc ax. check_axis stats entries ax acc) acc axes) = [])"
  by (induction axes arbitrary: acc) (simp_all add: check_axis_safe_iff)

text \<open>
  The flag \<open>safe\<close> is cleared exactly when a description is appended, so the second
  branch of the final test can never be taken.
\<close>

lemma check_never_NO_CONSTRAINTS: "check stats entries \<noteq> NO_CONSTRAINTS"
  using check_fold_safe_iff [of "([], True)" "axis_range stats" entries "[AxisX, AxisY, AxisZ]"]
  by (auto simp: check_def Let_def split: prod.splits)

text \<open>
  C1.  The limit checker has three outcomes, and a query with no bound for any axis is
  claimed to give NO-CONSTRAINTS.  On the code such a query gives SAFE, whatever the
  statistics are.
\<close>

theorem check_without_bounds_is_SAFE: "check stats (\<lambda>ax. ([], [])) = SAFE"
  by (simp add: check_def check_axis_no_bounds)

lemma check_axis_unparsed_min:
  "py_float u = None \<Longrightarrow>
   check_axis stats (entries(ax := (u, hi))) a acc =
   check_axis stats (entries(ax := ([], hi))) a acc"
  by (auto simp: check_axis_def Let_def split: option.splits prod.splits)

lemma check_axis_unparsed_max:
  "py_float u = None \<Longrightarrow>
   check_axis stats (entries(ax := (lo, u))) a acc =
   check_axis stats (entries(ax := (lo, []))) a acc"
  by (auto simp: check_axis_def Let_def split: option.splits prod.splits)

text \<open>
  C8.  A bound that \<open>float\<close> rejects never makes the limit checker fail: \<open>check\<close> gives
  the verdict it gives when that field is left empty, for a lower and for an upper
  bound, so the field adds no violation and every other bound is checked as before.
\<close>

theorem unparsed_bound_is_absent:
  "py_float u = None \<Longrightarrow>
   check stats (entries(ax := (u, hi))) = check stats (entries(ax := ([], hi))) \<and>
   check stats (entries(ax := (lo, u))) = check stats (entries(ax := (lo, [])))"
  by (simp add: check_def check_axis_unparsed_min check_axis_unparsed_max)

theorem unparsed_bound_is_absent_witness:
  "py_float (CHR 0x1C # ''0'') = None \<and>
   check (get_global_stats [(new_block ''h'')\<lparr>rapid := (\<lambda>a. [Fin (- 5), Fin 120])\<rparr>])
     ((\<lambda>a. ([], []))(AxisX := (CHR 0x1C # ''0'', ''100''))) =
   VIOLATIONS [Violation AxisX MaxLimit (Fin 120) ''100''] \<and>
   check (get_global_stats [(new_block ''h'')\<lparr>rapid := (\<lambda>a. [Fin (- 5), Fin 120])\<rparr>])
     ((\<lambda>a. ([], []))(AxisX := ([], ''100''))) =
   VIOLATIONS [Violation AxisX MaxLimit (Fin 120) ''100'']"
proof -
  have h: "py_float (CHR 0x1C # ''0'') = None"
    by code_simp
  have v: "check (get_global_stats [(new_block ''h'')\<lparr>rapid := (\<lambda>a. [Fin (- 5), Fin 120])\<rparr>])
     ((\<lambda>a. ([], []))(AxisX := ([], ''100''))) =
   VIOLATIONS [Violation AxisX MaxLimit (Fin 120) ''100'']"
    by code_simp
  from unparsed_bound_is_absent [OF h] h v show ?thesis
    by simp
qed

section \<open>Properties of BlockData\<close>

text \<open>
  The union of two (min, max) answers: an absent side gives the other side, and two
  present sides give the smaller of the minima and the larger of the maxima.
\<close>

fun opt_min :: "pyfloat option \<Rightarrow> pyfloat option \<Rightarrow> pyfloat option" where
  "opt_min None y = y"
| "opt_min (Some a) None = Some a"
| "opt_min (Some a) (Some b) = Some (if py_lt b a then b else a)"

fun opt_max :: "pyfloat option \<Rightarrow> pyfloat option \<Rightarrow> pyfloat option" where
  "opt_max None y = y"
| "opt_max (Some a) None = Some a"
| "opt_max (Some a) (Some b) = Some (if py_lt a b then b else a)"

definition union_min_max ::
  "pyfloat option \<times> pyfloat option \<Rightarrow> pyfloat option \<times> pyfloat option \<Rightarrow>
   pyfloat option \<times> pyfloat option" where
  "union_min_max p q = (opt_min (fst p) (fst q), opt_max (snd p) (snd q))"

text \<open>On lists of finite values \<open>min\<close> and \<open>max\<close> are the least and greatest element.\<close>

lemma py_min_Fin: "py_min (Fin r) (map Fin rs) = Fin (Min (set (r # rs)))"
proof -
  have "fold (\<lambda>v m. if py_lt v m then v else m) (map Fin rs) (Fin r) = Fin (fold min rs r)"
    by (induction rs arbitrary: r) (simp_all add: min_def not_less not_le le_less)
  then show ?thesis
    unfolding py_min_def Min.set_eq_fold by simp
qed

lemma py_max_Fin: "py_max (Fin r) (map Fin rs) = Fin (Max (set (r # rs)))"
proof -
  have "fold (\<lambda>v m. if py_lt m v then v else m) (map Fin rs) (Fin r) = Fin (fold max rs r)"
    by (induction rs arbitrary: r) (simp_all add: max_def not_less not_le le_less)
  then show ?thesis
    unfolding py_max_def Max.set_eq_fold by simp
qed

lemma min_max_Fin:
  "rs \<noteq> [] \<Longrightarrow> min_max (map Fin rs) = (Some (Fin (Min (set rs))), Some (Fin (Max (set rs))))"
  by (cases rs) (simp_all add: min_max_def py_min_Fin py_max_Fin)

text \<open>Without NaN, \<open><\<close> on floats is a strict linear order.\<close>

lemma py_lt_linear:
  "a \<noteq> NaN \<Longrightarrow> b \<noteq> NaN \<Longrightarrow> py_lt a b \<or> a = b \<or> py_lt b a"
  by (cases a; cases b) auto

lemma py_lt_trans: "py_lt a b \<Longrightarrow> py_lt b c \<Longrightarrow> py_lt a c"
  by (cases a; cases b; cases c) auto

lemma py_lt_asym: "py_lt a b \<Longrightarrow> \<not> py_lt b a"
  by (cases a; cases b) auto

lemma min_step_le:
  assumes "x \<noteq> NaN" "y \<noteq> NaN" "r \<noteq> NaN" "\<not> py_lt (if py_lt y x then y else x) r"
  shows "\<not> py_lt x r \<and> \<not> py_lt y r"
  using assms by (cases x; cases y; cases r) (auto split: if_splits)

lemma max_step_ge:
  assumes "x \<noteq> NaN" "y \<noteq> NaN" "r \<noteq> NaN" "\<not> py_lt r (if py_lt x y then y else x)"
  shows "\<not> py_lt r x \<and> \<not> py_lt r y"
  using assms by (cases x; cases y; cases r) (auto split: if_splits)

lemma py_min_least:
  assumes "NaN \<notin> set (x # xs)"
  shows "py_min x xs \<in> set (x # xs) \<and> (\<forall>v \<in> set (x # xs). \<not> py_lt v (py_min x xs))"
  using assms
proof (induction xs arbitrary: x)
  case Nil
  then show ?case by (cases x) (simp_all add: py_min_def)
next
  case (Cons y ys)
  let ?m = "if py_lt y x then y else x"
  from Cons.prems have n: "NaN \<notin> set (?m # ys)" "x \<noteq> NaN" "y \<noteq> NaN"
    by auto
  have e: "py_min x (y # ys) = py_min ?m ys"
    by (simp add: py_min_def)
  note ih = Cons.IH [OF n(1)]
  from ih have le: "\<not> py_lt ?m (py_min ?m ys)"
    by simp
  from ih have "py_min ?m ys \<in> set (?m # ys)" ..
  with n(1) have nn: "py_min ?m ys \<noteq> NaN"
    by (cases "py_min ?m ys") auto
  from min_step_le [OF n(2,3) nn le] ih show ?case
    unfolding e by auto
qed

lemma py_max_greatest:
  assumes "NaN \<notin> set (x # xs)"
  shows "py_max x xs \<in> set (x # xs) \<and> (\<forall>v \<in> set (x # xs). \<not> py_lt (py_max x xs) v)"
  using assms
proof (induction xs arbitrary: x)
  case Nil
  then show ?case by (cases x) (simp_all add: py_max_def)
next
  case (Cons y ys)
  let ?m = "if py_lt x y then y else x"
  from Cons.prems have n: "NaN \<notin> set (?m # ys)" "x \<noteq> NaN" "y \<noteq> NaN"
    by auto
  have e: "py_max x (y # ys) = py_max ?m ys"
    by (simp add: py_max_def)
  note ih = Cons.IH [OF n(1)]
  from ih have le: "\<not> py_lt (py_max ?m ys) ?m"
    by simp
  from ih have "py_max ?m ys \<in> set (?m # ys)" ..
  with n(1) have nn: "py_max ?m ys \<noteq> NaN"
    by (cases "py_max ?m ys") auto
  from max_step_ge [OF n(2,3) nn le] ih show ?case
    unfolding e by auto
qed

text \<open>The fold that \<open>min\<close> runs can be split at any point; so can that of \<open>max\<close>.\<close>

lemma min_step_assoc:
  assumes "a \<noteq> NaN" "b \<noteq> NaN" "c \<noteq> NaN"
  shows "(if py_lt a (if py_lt b c then b else c) then a else (if py_lt b c then b else c)) =
     (if py_lt (if py_lt a b then a else b) c then (if py_lt a b then a else b) else c)"
  using assms by (cases a; cases b; cases c) auto

lemma max_step_assoc:
  assumes "a \<noteq> NaN" "b \<noteq> NaN" "c \<noteq> NaN"
  shows "(if py_lt (if py_lt c b then b else c) a then a else (if py_lt c b then b else c)) =
     (if py_lt c (if py_lt b a then a else b) then (if py_lt b a then a else b) else c)"
  using assms by (cases a; cases b; cases c) auto

lemma py_min_split:
  assumes "NaN \<notin> set ys" "y \<noteq> NaN" "m \<noteq> NaN"
  shows "py_min (if py_lt y m then y else m) ys =
     (if py_lt (py_min y ys) m then py_min y ys else m)"
  using assms
proof (induction ys arbitrary: y)
  case Nil
  then show ?case by (simp add: py_min_def)
next
  case (Cons z zs)
  let ?y' = "if py_lt z y then z else y"
  from Cons.prems have n: "NaN \<notin> set zs" "?y' \<noteq> NaN" "z \<noteq> NaN"
    by auto
  have "py_min (if py_lt y m then y else m) (z # zs) =
      py_min (if py_lt z (if py_lt y m then y else m) then z else (if py_lt y m then y else m)) zs"
    by (simp add: py_min_def)
  also have "\<dots> = py_min (if py_lt ?y' m then ?y' else m) zs"
    using min_step_assoc [OF n(3) Cons.prems(2,3)] by simp
  also have "\<dots> = (if py_lt (py_min ?y' zs) m then py_min ?y' zs else m)"
    by (rule Cons.IH [OF n(1,2) Cons.prems(3)])
  also have "py_min ?y' zs = py_min y (z # zs)"
    by (simp add: py_min_def)
  finally show ?case .
qed

lemma py_max_split:
  assumes "NaN \<notin> set ys" "y \<noteq> NaN" "m \<noteq> NaN"
  shows "py_max (if py_lt m y then y else m) ys =
     (if py_lt m (py_max y ys) then py_max y ys else m)"
  using assms
proof (induction ys arbitrary: y)
  case Nil
  then show ?case by (simp add: py_max_def)
next
  case (Cons z zs)
  let ?y' = "if py_lt y z then z else y"
  from Cons.prems have n: "NaN \<notin> set zs" "?y' \<noteq> NaN" "z \<noteq> NaN"
    by auto
  have "py_max (if py_lt m y then y else m) (z # zs) =
      py_max (if py_lt (if py_lt m y then y else m) z then z else (if py_lt m y then y else m)) zs"
    by (simp add: py_max_def)
  also have "\<dots> = py_max (if py_lt m ?y' then ?y' else m) zs"
    using max_step_assoc [OF n(3) Cons.prems(2,3)] by simp
  also have "\<dots> = (if py_lt m (py_max ?y' zs) then py_max ?y' zs else m)"
    by (rule Cons.IH [OF n(1,2) Cons.prems(3)])
  also have "py_max ?y' zs = py_max y (z # zs)"
    by (simp add: py_max_def)
  finally show ?case .
qed

lemma min_max_append:
  assumes "NaN \<notin> set xs" "NaN \<notin> set ys"
  shows "min_max (xs @ ys) = union_min_max (min_max xs) (min_max ys)"
proof (cases xs)
  case Nil
  then show ?thesis by (simp add: union_min_max_def min_max_def)
next
  case x: (Cons x xs')
  show ?thesis
  proof (cases ys)
    case Nil
    with x show ?thesis by (simp add: union_min_max_def min_max_def)
  next
    case (Cons y ys')
    from x assms(1) have "NaN \<notin> set (x # xs')"
      by simp
    from py_min_least [OF this] py_max_greatest [OF this]
    have "py_min x xs' \<in> set (x # xs')" "py_max x xs' \<in> set (x # xs')"
      by blast+
    with \<open>NaN \<notin> set (x # xs')\<close> have nx: "py_min x xs' \<noteq> NaN" "py_max x xs' \<noteq> NaN"
      by (cases "py_min x xs'"; auto)+
    from Cons assms(2) have ny: "NaN \<notin> set ys'" "y \<noteq> NaN"
      by auto
    have "py_min x (xs' @ y # ys') = py_min (if py_lt y (py_min x xs') then y else py_min x xs') ys'"
      by (simp add: py_min_def)
    also have "\<dots> = (if py_lt (py_min y ys') (py_min x xs') then py_min y ys' else py_min x xs')"
      by (rule py_min_split [OF ny nx(1)])
    finally have 1: "py_min x (xs' @ y # ys') =
      (if py_lt (py_min y ys') (py_min x xs') then py_min y ys' else py_min x xs')" .
    have "py_max x (xs' @ y # ys') = py_max (if py_lt (py_max x xs') y then y else py_max x xs') ys'"
      by (simp add: py_max_def)
    also have "\<dots> = (if py_lt (py_max x xs') (py_max y ys') then py_max y ys' else py_max x xs')"
      by (rule py_max_split [OF ny nx(2)])
    finally have 2: "py_max x (xs' @ y # ys') =
      (if py_lt (py_max x xs') (py_max y ys') then py_max y ys' else py_max x xs')" .
    from x Cons 1 2 show ?thesis
      by (simp add: union_min_max_def min_max_def)
  qed
qed

text \<open>
  With a NaN among the samples the both-mode answer is no function of the two per-mode
  answers: the two blocks below agree on both per-mode queries and differ on the
  both-mode query.
\<close>

lemma both_query_with_NaN:
  "min_max [Fin 1] = min_max [Fin 1] \<and> min_max [NaN, Fin 0] = min_max [NaN] \<and>
   min_max ([Fin 1] @ [NaN, Fin 0]) = (Some (Fin 0), Some (Fin 1)) \<and>
   min_max ([Fin 1] @ [NaN]) = (Some (Fin 1), Some (Fin 1))"
  by (simp add: min_max_def py_min_def py_max_def)

lemma selected_vals_modes:
  "selected_vals blk a ''both'' = rapid blk a @ cut blk a"
  "selected_vals blk a ''rapid'' = rapid blk a"
  "selected_vals blk a ''cut'' = cut blk a"
  by (simp_all add: selected_vals_def)

text \<open>
  C6.  For every block and axis the both-mode query is the (min, max) of the rapid
  samples together with the cut samples, and it is (None, None) exactly when both
  sample lists are empty.  For finite samples each query returns the least and the
  greatest element of its sample set, so the both-mode query is that of the union of
  the two sets.  For samples without NaN -- all that \<open>float\<close> gives for a coordinate --
  the both-mode answer is the union of the two per-mode answers, and its two components
  are samples below and above which no sample lies.
\<close>

theorem get_raw_min_max_both:
  "((get_raw_min_max blk a ''both'' = (None, None)) = (rapid blk a = [] \<and> cut blk a = [])) \<and>
   (rapid blk a = map Fin rs \<and> cut blk a = map Fin cs \<longrightarrow>
      (rs \<noteq> [] \<longrightarrow>
         get_raw_min_max blk a ''rapid'' = (Some (Fin (Min (set rs))), Some (Fin (Max (set rs))))) \<and>
      (cs \<noteq> [] \<longrightarrow>
         get_raw_min_max blk a ''cut'' = (Some (Fin (Min (set cs))), Some (Fin (Max (set cs))))) \<and>
      (rs @ cs \<noteq> [] \<longrightarrow>
         get_raw_min_max blk a ''both'' =
           (Some (Fin (Min (set rs \<union> set cs))), Some (Fin (Max (set rs \<union> set cs)))))) \<and>
   (NaN \<notin> set (rapid blk a) \<and> NaN \<notin> set (cut blk a) \<longrightarrow>
      get_raw_min_max blk a ''both'' =
        union_min_max (get_raw_min_max blk a ''rapid'') (get_raw_min_max blk a ''cut'') \<and>
      (\<forall>lo hi. get_raw_min_max blk a ''both'' = (Some lo, Some hi) \<longrightarrow>
         lo \<in> set (rapid blk a @ cut blk a) \<and> hi \<in> set (rapid blk a @ cut blk a) \<and>
         (\<forall>v \<in> set (rapid blk a @ cut blk a). \<not> py_lt v lo \<and> \<not> py_lt hi v)))"
proof -
  have 1: "(get_raw_min_max blk a ''both'' = (None, None)) = (rapid blk a = [] \<and> cut blk a = [])"
    by (cases "rapid blk a"; cases "cut blk a")
      (simp_all add: get_raw_min_max_def selected_vals_modes min_max_def)
  have 2: "get_raw_min_max blk a ''rapid'' = (Some (Fin (Min (set rs))), Some (Fin (Max (set rs))))"
    if "rapid blk a = map Fin rs" "rs \<noteq> []" for rs
    using that by (simp add: get_raw_min_max_def selected_vals_modes min_max_Fin)
  have 3: "get_raw_min_max blk a ''cut'' = (Some (Fin (Min (set cs))), Some (Fin (Max (set cs))))"
    if "cut blk a = map Fin cs" "cs \<noteq> []" for cs
    using that by (simp add: get_raw_min_max_def selected_vals_modes min_max_Fin)
  have 4: "get_raw_min_max blk a ''both'' =
      (Some (Fin (Min (set rs \<union> set cs))), Some (Fin (Max (set rs \<union> set cs))))"
    if "rapid blk a = map Fin rs" "cut blk a = map Fin cs" "rs @ cs \<noteq> []" for rs cs
  proof -
    from that(1,2) have "selected_vals blk a ''both'' = map Fin (rs @ cs)"
      by (simp add: selected_vals_modes)
    with min_max_Fin [OF that(3)] show ?thesis
      by (simp add: get_raw_min_max_def)
  qed
  have 5: "get_raw_min_max blk a ''both'' =
      union_min_max (get_raw_min_max blk a ''rapid'') (get_raw_min_max blk a ''cut'')"
    if "NaN \<notin> set (rapid blk a)" "NaN \<notin> set (cut blk a)"
    using min_max_append [OF that] by (simp add: get_raw_min_max_def selected_vals_modes)
  have 6: "lo \<in> set (rapid blk a @ cut blk a) \<and> hi \<in> set (rapid blk a @ cut blk a) \<and>
         (\<forall>v \<in> set (rapid blk a @ cut blk a). \<not> py_lt v lo \<and> \<not> py_lt hi v)"
    if n: "NaN \<notin> set (rapid blk a)" "NaN \<notin> set (cut blk a)"
      and q: "get_raw_min_max blk a ''both'' = (Some lo, Some hi)" for lo hi
  proof -
    from q obtain x xs where v: "rapid blk a @ cut blk a = x # xs"
      and lo: "lo = py_min x xs" and hi: "hi = py_max x xs"
      by (cases "rapid blk a @ cut blk a")
        (simp_all add: get_raw_min_max_def selected_vals_modes min_max_def)
    from n have "NaN \<notin> set (rapid blk a @ cut blk a)"
      by simp
    then have "NaN \<notin> set (x # xs)"
      unfolding v .
    from py_min_least [OF this] py_max_greatest [OF this] show ?thesis
      unfolding v lo hi by blast
  qed
  from 1 2 3 4 5 6 show ?thesis
    by blast
qed

theorem get_raw_min_max_both_witness:
  "get_raw_min_max
     ((new_block ''b'')\<lparr>rapid := (\<lambda>a. [Fin 3, Fin (- 1)]), cut := (\<lambda>a. [Fin 7, Fin 2])\<rparr>)
     AxisX ''both'' = (Some (Fin (- 1)), Some (Fin 7)) \<and>
   get_raw_min_max
     ((new_block ''b'')\<lparr>rapid := (\<lambda>a. [Fin 3, Fin (- 1)]), cut := (\<lambda>a. [Fin 7, Fin 2])\<rparr>)
     AxisX ''rapid'' = (Some (Fin (- 1)), Some (Fin 3)) \<and>
   get_raw_min_max
     ((new_block ''b'')\<lparr>rapid := (\<lambda>a. [Fin 3, Fin (- 1)]), cut := (\<lambda>a. [Fin 7, Fin 2])\<rparr>)
     AxisX ''cut'' = (Some (Fin 2), Some (Fin 7)) \<and>
   union_min_max (Some (Fin (- 1)), Some (Fin 3)) (Some (Fin 2), Some (Fin 7)) =
     (Some (Fin (- 1)), Some (Fin 7))"
proof -
  let ?b = "(new_block ''b'')\<lparr>rapid := (\<lambda>a. [Fin 3, Fin (- 1)]), cut := (\<lambda>a. [Fin 7, Fin 2])\<rparr>"
  have h: "rapid ?b AxisX = map Fin [3, - 1]" "cut ?b AxisX = map Fin [7, 2]"
    "NaN \<notin> set (rapid ?b AxisX)" "NaN \<notin> set (cut ?b AxisX)"
    by simp_all
  from get_raw_min_max_both [of ?b AxisX "[3, - 1]" "[7, 2]"] h
  have r: "get_raw_min_max ?b AxisX ''rapid'' =
      (Some (Fin (Min (set [3, - 1]))), Some (Fin (Max (set [3, - 1]))))"
    and c: "get_raw_min_max ?b AxisX ''cut'' =
      (Some (Fin (Min (set [7, 2]))), Some (Fin (Max (set [7, 2]))))"
    and b: "get_raw_min_max ?b AxisX ''both'' =
      (Some (Fin (Min (set [3, - 1] \<union> set [7, 2]))), Some (Fin (Max (set [3, - 1] \<union> set [7, 2]))))"
    and u: "get_raw_min_max ?b AxisX ''both'' =
      union_min_max (get_raw_min_max ?b AxisX ''rapid'') (get_raw_min_max ?b AxisX ''cut'')"
    by (simp_all add: union_min_max_def)
  have r': "get_raw_min_max ?b AxisX ''rapid'' = (Some (Fin (- 1)), Some (Fin 3))"
    unfolding r by simp
  have c': "get_raw_min_max ?b AxisX ''cut'' = (Some (Fin 2), Some (Fin 7))"
    unfolding c by simp
  have b': "get_raw_min_max ?b AxisX ''both'' = (Some (Fin (- 1)), Some (Fin 7))"
    unfolding b by simp
  from u show ?thesis
    unfolding r' c' b' using r' c' b' by simp
qed

section \<open>The analyzer on the example program\<close>

lemma analyze_example_eval:
  "case analyze
          (''G0 X10 Y5'' @ [CHR 0x0A] @ ''G1 X20 Z-3'' @ [CHR 0x0A] @ ''(Facing) G96 S500 F0.2'')
          ''FANUC_Lathe'' of
     Inr [hdr, blk] \<Rightarrow>
       name hdr = ''Header / Setup'' \<and> name blk = ''Line3: Facing'' \<and>
       rapid hdr AxisX = [Fin 10] \<and> rapid hdr AxisY = [Fin 5] \<and> rapid hdr AxisZ = [] \<and>
       cut hdr AxisX = [Fin 20] \<and> cut hdr AxisY = [] \<and> cut hdr AxisZ = [Fin (- 3)] \<and>
       s_vals hdr = [] \<and> f_vals hdr = [] \<and> errors hdr = [] \<and>
       rapid blk AxisX = [] \<and> rapid blk AxisY = [] \<and> rapid blk AxisZ = [] \<and>
       cut blk AxisX = [] \<and> cut blk AxisY = [] \<and> cut blk AxisZ = [] \<and>
       s_vals blk = [Fin 500] \<and> f_vals blk = [Fin (1 / 5)] \<and>
       errors blk = [G96_without_G50 3]
   | _ \<Rightarrow> False"
  by code_simp

text \<open>
  C3.  Under the lathe profile the three lines \<open>G0 X10 Y5\<close>, \<open>G1 X20 Z-3\<close> and
  \<open>(Facing) G96 S500 F0.2\<close> give exactly two blocks: the header with rapid X [10],
  rapid Y [5], cut X [20], cut Z [-3] and nothing else, and the block
  \<open>Line3: Facing\<close> with spindle samples [500], feed samples [0.2], no coordinates and
  the single message for G96 without G50 on line 3.
\<close>

theorem analyze_example:
  "\<exists>hdr blk.
     analyze
       (''G0 X10 Y5'' @ [CHR 0x0A] @ ''G1 X20 Z-3'' @ [CHR 0x0A] @ ''(Facing) G96 S500 F0.2'')
       ''FANUC_Lathe'' = Inr [hdr, blk] \<and>
     name hdr = ''Header / Setup'' \<and> name blk = ''Line3: Facing'' \<and>
     rapid hdr AxisX = [Fin 10] \<and> rapid hdr AxisY = [Fin 5] \<and> rapid hdr AxisZ = [] \<and>
     cut hdr AxisX = [Fin 20] \<and> cut hdr AxisY = [] \<and> cut hdr AxisZ = [Fin (- 3)] \<and>
     s_vals hdr = [] \<and> f_vals hdr = [] \<and> errors hdr = [] \<and>
     rapid blk AxisX = [] \<and> rapid blk AxisY = [] \<and> rapid blk AxisZ = [] \<and>
     cut blk AxisX = [] \<and> cut blk AxisY = [] \<and> cut blk AxisZ = [] \<and>
     s_vals blk = [Fin 500] \<and> f_vals blk = [Fin (1 / 5)] \<and>
     errors blk = [G96_without_G50 3]"
  using analyze_example_eval by (simp split: sum.splits list.splits)

section \<open>Matched tokens always parse\<close>

text \<open>The texts the pattern \<open>\d+\.?\d*\<close> can match.\<close>

definition decimal_text :: "string \<Rightarrow> bool" where
  "decimal_text s = (\<exists>ds fs. ds \<noteq> [] \<and> (\<forall>c \<in> set ds. is_digit c) \<and> (\<forall>c \<in> set fs. is_digit c) \<and>
      (s = ds \<or> s = ds @ CHR ''.'' # fs))"

lemma digit_not_space: "is_digit c \<Longrightarrow> \<not> is_float_space c"
  by (auto simp: is_digit_def is_float_space_def)

lemma digit_not_special:
  "is_digit c \<Longrightarrow> c \<noteq> CHR ''_'' \<and> c \<noteq> CHR ''-'' \<and> c \<noteq> CHR ''+'' \<and> c \<noteq> CHR ''.''"
  by (auto simp: is_digit_def)

lemma digit_lower: "is_digit c \<Longrightarrow> lower_char c \<noteq> CHR ''i'' \<and> lower_char c \<noteq> CHR ''n''"
proof -
  assume "is_digit c"
  then consider "c = CHR ''0''" | "c = CHR ''1''" | "c = CHR ''2''" | "c = CHR ''3''"
    | "c = CHR ''4''" | "c = CHR ''5''" | "c = CHR ''6''" | "c = CHR ''7''"
    | "c = CHR ''8''" | "c = CHR ''9''"
    by (auto simp: is_digit_def)
  then show ?thesis
    by cases (simp_all add: lower_char_def)
qed

lemma special_not_space:
  "\<not> is_float_space CHR ''.''" "\<not> is_float_space CHR ''-''"
  by (simp_all add: is_float_space_def)

lemma strip_underscores_id:
  "CHR ''_'' \<notin> set s \<Longrightarrow> prev \<noteq> CHR ''_'' \<Longrightarrow> strip_underscores prev s = Some s"
  by (induction s arbitrary: prev) auto

lemma float_strip_id:
  assumes "s \<noteq> []" "\<not> is_float_space (hd s)" "\<not> is_float_space (last s)"
  shows "float_strip s = s"
proof -
  from assms(1) obtain ys y where s: "s = ys @ [y]"
    by (cases s rule: rev_cases) auto
  from assms(1,2) have 1: "dropWhile is_float_space s = s"
    by (cases s) auto
  from s assms(3) have "dropWhile is_float_space (rev s) = rev s"
    by simp
  with 1 show ?thesis
    by (simp add: float_strip_def)
qed

lemma digits_in_range_short:
  assumes "int (length ip + length fp) \<le> max_float_digits"
  shows "digits_in_range ip fp"
proof -
  have "length (dropWhile (\<lambda>c. c = CHR ''0'') ip) \<le> length ip"
    "length (dropWhile (\<lambda>c. c = CHR ''0'') fp) \<le> length fp"
    by (rule length_dropWhile_le)+
  with assms show ?thesis
    by (auto simp: digits_in_range_def Let_def)
qed

lemma parse_unsigned_decimal:
  assumes "decimal_text s" "int (length s) \<le> max_float_digits"
  shows "\<exists>v. parse_unsigned s = Some v"
proof -
  from assms obtain ds fs where d: "ds \<noteq> []" "\<forall>c \<in> set ds. is_digit c" "\<forall>c \<in> set fs. is_digit c"
    and s: "s = ds \<or> s = ds @ CHR ''.'' # fs"
    by (auto simp: decimal_text_def)
  from s show ?thesis
  proof
    assume "s = ds"
    with d have tw: "takeWhile is_digit s = ds" and dw: "dropWhile is_digit s = []"
      by simp_all
    from \<open>s = ds\<close> assms(2) have "digits_in_range ds []"
      by (intro digits_in_range_short) simp
    then show ?thesis
      unfolding parse_unsigned_def tw dw using d(1)
      by (simp add: parse_exponent_def)
  next
    assume s: "s = ds @ CHR ''.'' # fs"
    have nd: "\<not> is_digit CHR ''.''"
      by (simp add: is_digit_def)
    from s d nd have tw: "takeWhile is_digit s = ds"
      and dw: "dropWhile is_digit s = CHR ''.'' # fs"
      by (simp_all add: takeWhile_append2 dropWhile_append2)
    from d have tf: "takeWhile is_digit fs = fs" and df: "dropWhile is_digit fs = []"
      by simp_all
    from s assms(2) have "digits_in_range ds fs"
      by (intro digits_in_range_short) simp
    then show ?thesis
      unfolding parse_unsigned_def tw dw using d(1)
      by (simp add: parse_exponent_def tf df)
  qed
qed

lemma not_digit:
  "\<not> is_digit CHR ''_''" "\<not> is_digit CHR ''.''" "\<not> is_digit CHR ''-''"
  by (simp_all add: is_digit_def)

lemma decimal_text_props:
  assumes "decimal_text s"
  shows "s \<noteq> []" "is_digit (hd s)" "is_digit (last s) \<or> last s = CHR ''.''" "CHR ''_'' \<notin> set s"
  using assms not_digit by (auto simp: decimal_text_def)

lemma py_float_decimal:
  assumes "decimal_text s" "int (length s) \<le> max_float_digits"
  shows "\<exists>r. py_float s = Some (Fin r)"
proof -
  note p = decimal_text_props [OF assms(1)]
  from p obtain c cs where cs: "s = c # cs" "is_digit c"
    by (cases s) auto
  have sp: "\<not> is_float_space (hd s)" "\<not> is_float_space (last s)"
    using p digit_not_space special_not_space by auto
  have st: "float_strip s = s"
    using p(1) sp by (rule float_strip_id)
  have low: "map lower_char s \<noteq> ''inf''" "map lower_char s \<noteq> ''infinity''"
    "map lower_char s \<noteq> ''nan''"
    using cs digit_lower [of c] by auto
  from parse_unsigned_decimal [OF assms] obtain v where v: "parse_unsigned s = Some v" ..
  have u: "strip_underscores (CHR 0x00) s = Some s"
    using p by (simp add: strip_underscores_id)
  show ?thesis
    unfolding py_float_def u using st low v cs digit_not_special [of c]
    by (simp add: Let_def)
qed

lemma py_float_minus_decimal:
  assumes "decimal_text s" "int (length s) \<le> max_float_digits"
  shows "\<exists>r. py_float (CHR ''-'' # s) = Some (Fin r)"
proof -
  note p = decimal_text_props [OF assms(1)]
  from p obtain c cs where cs: "s = c # cs" "is_digit c"
    by (cases s) auto
  have "\<not> is_float_space (last s)"
    using p digit_not_space special_not_space by auto
  then have st: "float_strip (CHR ''-'' # s) = CHR ''-'' # s"
    using p(1) special_not_space by (intro float_strip_id) auto
  have low: "map lower_char s \<noteq> ''inf''" "map lower_char s \<noteq> ''infinity''"
    "map lower_char s \<noteq> ''nan''"
    using cs digit_lower [of c] by auto
  from parse_unsigned_decimal [OF assms] obtain v where v: "parse_unsigned s = Some v" ..
  have u: "strip_underscores (CHR 0x00) (CHR ''-'' # s) = Some (CHR ''-'' # s)"
    using p by (intro strip_underscores_id) auto
  show ?thesis
    unfolding py_float_def u using st low v
    by (simp add: Let_def)
qed

lemma takeWhile_digits_decimal: "takeWhile is_digit s \<noteq> [] \<Longrightarrow> decimal_text (takeWhile is_digit s)"
  unfolding decimal_text_def
  by (rule exI [of _ "takeWhile is_digit s"], rule exI [of _ "[]"])
    (auto dest: set_takeWhileD)

lemma match_decimal_text:
  assumes "match_decimal s = Some (num, rest)"
  shows "decimal_text num"
proof -
  let ?ip = "takeWhile is_digit s"
  from assms have ne: "?ip \<noteq> []"
    by (auto simp: match_decimal_def Let_def split: if_splits)
  from assms consider "num = ?ip"
    | t where "num = ?ip @ CHR ''.'' # takeWhile is_digit t"
    by (auto simp: match_decimal_def Let_def split: if_splits list.splits)
  then show ?thesis
  proof cases
    case 1
    with ne show ?thesis by (simp add: takeWhile_digits_decimal)
  next
    case 2
    show ?thesis
      unfolding decimal_text_def
      by (rule exI [of _ ?ip], rule exI [of _ "takeWhile is_digit t"])
        (use ne 2 in \<open>auto dest: set_takeWhileD\<close>)
  qed
qed

lemma re_s_search_text: "re_s_search s = Some g \<Longrightarrow> decimal_text g"
  by (induction s) (auto simp: takeWhile_digits_decimal split: if_splits)

lemma re_f_search_text: "re_f_search s = Some g \<Longrightarrow> decimal_text g"
  by (induction s) (auto simp: match_decimal_text split: if_splits option.splits)

section \<open>The shape of a processed line\<close>

text \<open>
  The numbers \<open>int\<close> gives for the digit groups of a line, and the condition under which
  it accepts them all: no group has more than 4300 digits.
\<close>

definition g_numbers :: "string \<Rightarrow> nat list" where
  "g_numbers content = map int_of_digits (re_g_findall (upper content))"

definition g_ok :: "string \<Rightarrow> bool" where
  "g_ok content =
     list_all (\<lambda>g. int (length g) \<le> max_str_digits) (re_g_findall (upper content))"

lemma ints_of_eq:
  "ints_of gs =
     (if list_all (\<lambda>g. int (length g) \<le> max_str_digits) gs then Inr (map int_of_digits gs)
      else Inl ValueError)"
  by (induction gs) (auto simp: py_int_def)

lemma g_codes_of_eq:
  "g_codes_of content = (if g_ok content then Inr (g_numbers content) else Inl ValueError)"
  by (simp add: g_codes_of_def g_ok_def g_numbers_def ints_of_eq)

lemma g_codes_of_Inr: "g_codes_of content = Inr gs \<Longrightarrow> g_ok content \<and> gs = g_numbers content"
  by (simp add: g_codes_of_eq split: if_splits)

lemma g_numbers_empty [simp]: "g_numbers [] = []"
  by (simp add: g_numbers_def upper_def)

lemma add_s_shape:
  assumes "add_s blk up = Inr blk'"
  shows "\<exists>vs. blk' = blk\<lparr>s_vals := s_vals blk @ vs\<rparr>"
proof (cases "re_s_search up")
  case None
  with assms have "blk' = blk\<lparr>s_vals := s_vals blk @ []\<rparr>"
    by (simp add: add_s_def)
  then show ?thesis ..
next
  case (Some g)
  with assms obtain v where "blk' = blk\<lparr>s_vals := s_vals blk @ [v]\<rparr>"
    by (auto simp: add_s_def split: option.splits)
  then show ?thesis ..
qed

lemma add_f_shape:
  assumes "add_f blk up = Inr blk'"
  shows "\<exists>vs. blk' = blk\<lparr>f_vals := f_vals blk @ vs\<rparr>"
proof (cases "re_f_search up")
  case None
  with assms have "blk' = blk\<lparr>f_vals := f_vals blk @ []\<rparr>"
    by (simp add: add_f_def)
  then show ?thesis ..
next
  case (Some g)
  with assms obtain v where "blk' = blk\<lparr>f_vals := f_vals blk @ [v]\<rparr>"
    by (auto simp: add_f_def split: option.splits)
  then show ?thesis ..
qed

text \<open>The state after the coordinate step of a line whose content is not empty.\<close>

definition after_coords :: "scan_state \<Rightarrow> nat \<Rightarrow> string \<Rightarrow> scan_state" where
  "after_coords st line_num line =
     (let st1 = switch_block st line_num line;
          r = update_mode (g_numbers (line_content line)) (is_rapid_mode st1)
      in st1\<lparr>is_rapid_mode := r,
             current_block := add_coords (current_block st1)
               (re_coord_findall (upper (line_content line))) r\<rparr>)"

lemma process_line_empty: "line_content line = [] \<Longrightarrow> process_line m st n line = Inr st"
  by (simp add: process_line_def)

text \<open>
  A line that is processed to the end: \<open>int\<close> accepted every digit group, and the state
  is that after the coordinate step, with the S and F values appended and the lathe
  check applied.
\<close>

lemma process_line_shape:
  assumes "line_content line \<noteq> []" "process_line m st n line = Inr st'"
  shows "g_codes_of (line_content line) = Inr (g_numbers (line_content line))"
    and "\<exists>sv fv. st' =
     simple_check m (g_numbers (line_content line)) n
       ((after_coords st n line)\<lparr>current_block :=
          (current_block (after_coords st n line))
            \<lparr>s_vals := s_vals (current_block (after_coords st n line)) @ sv,
             f_vals := f_vals (current_block (after_coords st n line)) @ fv\<rparr>\<rparr>)"
proof -
  let ?up = "upper (line_content line)"
  let ?a = "after_coords st n line"
  let ?b = "current_block ?a"
  from assms show g: "g_codes_of (line_content line) = Inr (g_numbers (line_content line))"
    by (auto simp: process_line_def Let_def g_codes_of_eq split: if_splits)
  from assms g obtain b1 b2 where b1: "add_s ?b ?up = Inr b1" and b2: "add_f b1 ?up = Inr b2"
    and st': "st' = simple_check m (g_numbers (line_content line)) n (?a\<lparr>current_block := b2\<rparr>)"
    by (auto simp: process_line_def Let_def after_coords_def split: sum.splits)
  from add_s_shape [OF b1] obtain sv where sv: "b1 = ?b\<lparr>s_vals := s_vals ?b @ sv\<rparr>" ..
  from add_f_shape [OF b2] obtain fv where "b2 = b1\<lparr>f_vals := f_vals b1 @ fv\<rparr>" ..
  with sv have "b2 = ?b\<lparr>s_vals := s_vals ?b @ sv, f_vals := f_vals ?b @ fv\<rparr>"
    by simp
  with st' show "\<exists>sv fv. st' =
     simple_check m (g_numbers (line_content line)) n
       (?a\<lparr>current_block := ?b\<lparr>s_vals := s_vals ?b @ sv, f_vals := f_vals ?b @ fv\<rparr>\<rparr>)"
    by blast
qed

section \<open>What one line and a run of lines do to the scan state\<close>

text \<open>Every message written so far, in block order.\<close>

definition all_errors :: "scan_state \<Rightarrow> message list" where
  "all_errors st = concat (map errors (blocks_of st))"

lemma switch_block_flags [simp]:
  "is_rapid_mode (switch_block st n line) = is_rapid_mode st"
  "has_g50_global (switch_block st n line) = has_g50_global st"
  by (simp_all add: switch_block_def split: option.splits)

lemma switch_block_errors [simp]: "all_errors (switch_block st n line) = all_errors st"
  by (simp add: switch_block_def all_errors_def blocks_of_def new_block_def split: option.splits)

lemma add_val_errors [simp]: "errors (add_val blk k v r) = errors blk"
  by (simp add: add_val_def split: option.splits)

lemma add_coords_errors [simp]: "errors (add_coords blk toks r) = errors blk"
  unfolding add_coords_def
  by (induction toks arbitrary: blk) (simp_all split: option.splits prod.splits)

lemma after_coords_flags [simp]:
  "is_rapid_mode (after_coords st n line) =
     update_mode (g_numbers (line_content line)) (is_rapid_mode st)"
  "has_g50_global (after_coords st n line) = has_g50_global st"
  by (simp_all add: after_coords_def Let_def)

lemma after_coords_errors [simp]: "all_errors (after_coords st n line) = all_errors st"
proof -
  have "all_errors (after_coords st n line) = all_errors (switch_block st n line)"
    by (simp add: after_coords_def Let_def all_errors_def blocks_of_def)
  then show ?thesis by simp
qed

lemma simple_check_flags [simp]:
  "is_rapid_mode (simple_check m c n st) = is_rapid_mode st"
  "has_g50_global (simple_check m c n st) =
     (has_g50_global st \<or> (m = ''FANUC_Lathe'' \<and> 50 \<in> set c))"
  by (auto simp: simple_check_def Let_def)

lemma simple_check_errors:
  "all_errors (simple_check m c n st) =
     all_errors st @
     (if m = ''FANUC_Lathe'' \<and> 96 \<in> set c \<and> \<not> has_g50_global st \<and> 50 \<notin> set c
      then [G96_without_G50 n] else [])"
  by (auto simp: simple_check_def Let_def all_errors_def blocks_of_def)

lemma update_mode_empty [simp]: "update_mode [] r = r"
  by (simp add: update_mode_def)

lemma process_line_flags:
  assumes "process_line m st n line = Inr st'"
  shows "is_rapid_mode st' = update_mode (g_numbers (line_content line)) (is_rapid_mode st)"
    and "has_g50_global st' =
      (has_g50_global st \<or> (m = ''FANUC_Lathe'' \<and> 50 \<in> set (g_numbers (line_content line))))"
proof -
  show "is_rapid_mode st' = update_mode (g_numbers (line_content line)) (is_rapid_mode st)"
  proof (cases "line_content line = []")
    case True
    with assms show ?thesis by (simp add: process_line_empty)
  next
    case False
    from process_line_shape(2) [OF False assms] show ?thesis by auto
  qed
  show "has_g50_global st' =
      (has_g50_global st \<or> (m = ''FANUC_Lathe'' \<and> 50 \<in> set (g_numbers (line_content line))))"
  proof (cases "line_content line = []")
    case True
    with assms show ?thesis by (simp add: process_line_empty)
  next
    case False
    from process_line_shape(2) [OF False assms] show ?thesis by auto
  qed
qed

lemma process_line_errors:
  assumes "process_line m st n line = Inr st'"
  shows "all_errors st' =
     all_errors st @
     (if m = ''FANUC_Lathe'' \<and> 96 \<in> set (g_numbers (line_content line)) \<and>
         \<not> has_g50_global st \<and> 50 \<notin> set (g_numbers (line_content line))
      then [G96_without_G50 n] else [])"
proof (cases "line_content line = []")
  case True
  with assms show ?thesis by (simp add: process_line_empty)
next
  case False
  let ?a = "after_coords st n line"
  from process_line_shape(2) [OF False assms] obtain sv fv where
    st': "st' = simple_check m (g_numbers (line_content line)) n
       (?a\<lparr>current_block := (current_block ?a)
            \<lparr>s_vals := s_vals (current_block ?a) @ sv,
             f_vals := f_vals (current_block ?a) @ fv\<rparr>\<rparr>)"
    by auto
  have "all_errors (?a\<lparr>current_block := (current_block ?a)
            \<lparr>s_vals := s_vals (current_block ?a) @ sv,
             f_vals := f_vals (current_block ?a) @ fv\<rparr>\<rparr>) = all_errors ?a"
    by (simp add: all_errors_def blocks_of_def)
  then show ?thesis
    unfolding st' simple_check_errors by simp
qed

lemma scan_append:
  "scan m st i (xs @ ys) =
     (case scan m st i xs of Inl e \<Rightarrow> Inl e | Inr st' \<Rightarrow> scan m st' (i + length xs) ys)"
  by (induction xs arbitrary: st i) (simp_all split: sum.splits)

lemma scan_flags:
  assumes "scan m st i ls = Inr st'"
  shows "is_rapid_mode st' =
      foldl (\<lambda>r l. update_mode (g_numbers (line_content l)) r) (is_rapid_mode st) ls"
    and "has_g50_global st' =
      (has_g50_global st \<or>
       (m = ''FANUC_Lathe'' \<and> (\<exists>l \<in> set ls. 50 \<in> set (g_numbers (line_content l)))))"
  using assms
proof (induction ls arbitrary: st i)
  case Nil
  { case 1 then show ?case by simp }
  { case 2 then show ?case by simp }
next
  case (Cons l ls)
  { case 1
    then obtain st1 where p: "process_line m st (i + 1) l = Inr st1"
      and s: "scan m st1 (i + 1) ls = Inr st'"
      by (auto split: sum.splits)
    from Cons.IH(1) [OF s] process_line_flags(1) [OF p] show ?case by simp }
  { case 2
    then obtain st1 where p: "process_line m st (i + 1) l = Inr st1"
      and s: "scan m st1 (i + 1) ls = Inr st'"
      by (auto split: sum.splits)
    from Cons.IH(2) [OF s] process_line_flags(2) [OF p] show ?case by auto }
qed

lemma scan_errors_latched:
  assumes "scan m st i ls = Inr st'" "has_g50_global st"
  shows "all_errors st' = all_errors st"
  using assms
proof (induction ls arbitrary: st i)
  case Nil
  then show ?case by simp
next
  case (Cons l ls)
  then obtain st1 where p: "process_line m st (i + 1) l = Inr st1"
    and s: "scan m st1 (i + 1) ls = Inr st'"
    by (auto split: sum.splits)
  from process_line_flags(2) [OF p] Cons.prems(2) have "has_g50_global st1" by simp
  from Cons.IH [OF s this] process_line_errors [OF p] Cons.prems(2) show ?case by simp
qed

lemma scan_errors_range:
  assumes "scan m st i ls = Inr st'" "G96_without_G50 n \<in> set (all_errors st')"
  shows "G96_without_G50 n \<in> set (all_errors st) \<or>
    (i < n \<and> n \<le> i + length ls \<and> \<not> has_g50_global st \<and> m = ''FANUC_Lathe'' \<and>
     96 \<in> set (g_numbers (line_content (ls ! (n - i - 1)))) \<and>
     (\<forall>j < n - i. 50 \<notin> set (g_numbers (line_content (ls ! j)))))"
  using assms
proof (induction ls arbitrary: st i)
  case Nil
  then show ?case by simp
next
  case (Cons l ls)
  then obtain st1 where p: "process_line m st (i + 1) l = Inr st1"
    and s: "scan m st1 (i + 1) ls = Inr st'"
    by (auto split: sum.splits)
  note e = process_line_errors [OF p]
  note f = process_line_flags(2) [OF p]
  from Cons.IH [OF s Cons.prems(2)] show ?case
  proof
    assume "G96_without_G50 n \<in> set (all_errors st1)"
    with e show ?thesis
      by (auto split: if_splits)
  next
    assume a: "i + 1 < n \<and> n \<le> i + 1 + length ls \<and> \<not> has_g50_global st1 \<and>
      m = ''FANUC_Lathe'' \<and>
      96 \<in> set (g_numbers (line_content (ls ! (n - (i + 1) - 1)))) \<and>
      (\<forall>j < n - (i + 1). 50 \<notin> set (g_numbers (line_content (ls ! j))))"
    then have n: "n - i - 1 = Suc (n - (i + 1) - 1)" "n - i = Suc (n - (i + 1))"
      by arith+
    from a f have l: "\<not> has_g50_global st" "50 \<notin> set (g_numbers (line_content l))"
      by auto
    have "\<forall>j < n - i. 50 \<notin> set (g_numbers (line_content ((l # ls) ! j)))"
    proof (intro allI impI)
      fix j assume "j < n - i"
      with a l n show "50 \<notin> set (g_numbers (line_content ((l # ls) ! j)))"
        by (cases j) auto
    qed
    with a l n show ?thesis by auto
  qed
qed

section \<open>Where the coordinates of a line are stored\<close>

text \<open>The values a list of matched tokens contributes to one axis, in order.\<close>

definition coord_values :: "axis \<Rightarrow> (string \<times> string) list \<Rightarrow> pyfloat list" where
  "coord_values a toks =
     concat (map (\<lambda>(k, v). case parse_value v of
                               None \<Rightarrow> []
                             | Some x \<Rightarrow> if axis_of_key k = Some a then [x] else []) toks)"

lemma coord_values_simps [simp]:
  "coord_values a [] = []"
  "coord_values a ((k, v) # toks) =
     (case parse_value v of
        None \<Rightarrow> []
      | Some x \<Rightarrow> if axis_of_key k = Some a then [x] else []) @ coord_values a toks"
  by (simp_all add: coord_values_def)

lemma add_coords_simps [simp]:
  "add_coords blk [] r = blk"
  "add_coords blk ((k, v) # toks) r =
     add_coords (case parse_value v of None \<Rightarrow> blk | Some x \<Rightarrow> add_val blk k x r) toks r"
  by (simp_all add: add_coords_def)

lemma add_val_fields:
  "rapid (add_val blk k x r) a =
     rapid blk a @ (if r \<and> axis_of_key k = Some a then [x] else [])"
  "cut (add_val blk k x r) a =
     cut blk a @ (if \<not> r \<and> axis_of_key k = Some a then [x] else [])"
  "name (add_val blk k x r) = name blk"
  "s_vals (add_val blk k x r) = s_vals blk"
  "f_vals (add_val blk k x r) = f_vals blk"
  by (auto simp: add_val_def split: option.splits)

lemma add_coords_fields:
  "rapid (add_coords blk toks r) a = rapid blk a @ (if r then coord_values a toks else [])"
  "cut (add_coords blk toks r) a = cut blk a @ (if r then [] else coord_values a toks)"
  "name (add_coords blk toks r) = name blk"
  "s_vals (add_coords blk toks r) = s_vals blk"
  "f_vals (add_coords blk toks r) = f_vals blk"
proof (induction toks arbitrary: blk)
  case Nil
  { case 1 show ?case by simp }
  { case 2 show ?case by simp }
  { case 3 show ?case by simp }
  { case 4 show ?case by simp }
  { case 5 show ?case by simp }
next
  case (Cons t toks)
  obtain k v where t: "t = (k, v)" by (cases t)
  { case 1 show ?case unfolding t by (simp add: Cons.IH add_val_fields split: option.splits) }
  { case 2 show ?case unfolding t by (simp add: Cons.IH add_val_fields split: option.splits) }
  { case 3 show ?case unfolding t by (simp add: Cons.IH add_val_fields split: option.splits) }
  { case 4 show ?case unfolding t by (simp add: Cons.IH add_val_fields split: option.splits) }
  { case 5 show ?case unfolding t by (simp add: Cons.IH add_val_fields split: option.splits) }
qed

lemma simple_check_coords [simp]:
  "rapid (current_block (simple_check m c n st)) = rapid (current_block st)"
  "cut (current_block (simple_check m c n st)) = cut (current_block st)"
  "name (current_block (simple_check m c n st)) = name (current_block st)"
  "closed_blocks (simple_check m c n st) = closed_blocks st"
  by (simp_all add: simple_check_def Let_def)

lemma process_line_coords:
  assumes "line_content line \<noteq> []" "process_line m st n line = Inr st'"
  shows "is_rapid_mode st' = update_mode (g_numbers (line_content line)) (is_rapid_mode st)"
    and "rapid (current_block st') a =
        rapid (current_block (switch_block st n line)) a @
        (if is_rapid_mode st'
         then coord_values a (re_coord_findall (upper (line_content line))) else [])"
    and "cut (current_block st') a =
        cut (current_block (switch_block st n line)) a @
        (if is_rapid_mode st'
         then [] else coord_values a (re_coord_findall (upper (line_content line))))"
proof -
  from process_line_shape(2) [OF assms] obtain sv fv where
    p: "st' = simple_check m (g_numbers (line_content line)) n
       ((after_coords st n line)\<lparr>current_block :=
          (current_block (after_coords st n line))
            \<lparr>s_vals := s_vals (current_block (after_coords st n line)) @ sv,
             f_vals := f_vals (current_block (after_coords st n line)) @ fv\<rparr>\<rparr>)"
    by blast
  have c: "current_block (after_coords st n line) =
      add_coords (current_block (switch_block st n line))
        (re_coord_findall (upper (line_content line)))
        (update_mode (g_numbers (line_content line)) (is_rapid_mode st))"
    by (simp add: after_coords_def Let_def)
  show "is_rapid_mode st' = update_mode (g_numbers (line_content line)) (is_rapid_mode st)"
    unfolding p by simp
  show "rapid (current_block st') a =
        rapid (current_block (switch_block st n line)) a @
        (if is_rapid_mode st'
         then coord_values a (re_coord_findall (upper (line_content line))) else [])"
    unfolding p by (simp add: c add_coords_fields)
  show "cut (current_block st') a =
        cut (current_block (switch_block st n line)) a @
        (if is_rapid_mode st'
         then [] else coord_values a (re_coord_findall (upper (line_content line))))"
    unfolding p by (simp add: c add_coords_fields)
qed

lemma update_mode_eq:
  "update_mode cs r =
     (if \<exists>g \<in> set cs. g \<in> {1, 2, 3} then False else if 0 \<in> set cs then True else r)"
  by (simp add: update_mode_def)

text \<open>
  C2.  The mode update sets RAPID when a G-code number is 0 and afterwards sets CUT when
  one is 1, 2 or 3, so the second test wins.  When a line whose G-code numbers include
  0 and one of 1, 2, 3 has been processed, the mode after it is CUT, the rapid samples
  of the current block are untouched and every coordinate of that line is appended to
  its cut samples.
\<close>

theorem mode_tie_break:
  "update_mode cs r =
     (if \<exists>g \<in> set cs. g \<in> {1, 2, 3} then False else if 0 \<in> set cs then True else r) \<and>
   (process_line m st n line = Inr st' \<and> g_codes_of (line_content line) = Inr gs \<and>
    0 \<in> set gs \<and> (\<exists>g \<in> set gs. g \<in> {1, 2, 3}) \<longrightarrow>
      \<not> is_rapid_mode st' \<and>
      (\<forall>a. rapid (current_block st') a = rapid (current_block (switch_block st n line)) a) \<and>
      (\<forall>a. cut (current_block st') a =
         cut (current_block (switch_block st n line)) a @
         coord_values a (re_coord_findall (upper (line_content line)))))"
proof (rule conjI, rule update_mode_eq, rule impI)
  assume a: "process_line m st n line = Inr st' \<and> g_codes_of (line_content line) = Inr gs \<and>
    0 \<in> set gs \<and> (\<exists>g \<in> set gs. g \<in> {1, 2, 3})"
  then have p: "process_line m st n line = Inr st'" and gs: "gs = g_numbers (line_content line)"
    by (auto dest: g_codes_of_Inr)
  from a gs have ne: "line_content line \<noteq> []"
    by auto
  from a gs have u: "update_mode (g_numbers (line_content line)) (is_rapid_mode st) = False"
    by (simp add: update_mode_eq)
  note c = process_line_coords [OF ne p]
  from c(1) u have r: "\<not> is_rapid_mode st'"
    by simp
  with c(2,3) show "\<not> is_rapid_mode st' \<and>
      (\<forall>a. rapid (current_block st') a = rapid (current_block (switch_block st n line)) a) \<and>
      (\<forall>a. cut (current_block st') a =
         cut (current_block (switch_block st n line)) a @
         coord_values a (re_coord_findall (upper (line_content line))))"
    by simp
qed

theorem mode_tie_break_witness:
  "g_codes_of (line_content ''G0 G1 X5 Z-2'') = Inr [0, 1] \<and>
   (\<exists>st'. process_line ''OSP_Mill'' initial_state 1 ''G0 G1 X5 Z-2'' = Inr st' \<and>
      \<not> is_rapid_mode st' \<and>
      rapid (current_block st') AxisX = [] \<and> rapid (current_block st') AxisZ = [] \<and>
      cut (current_block st') AxisX = [Fin 5] \<and> cut (current_block st') AxisZ = [Fin (- 2)])"
proof -
  have g: "g_codes_of (line_content ''G0 G1 X5 Z-2'') = Inr [0, 1]"
    by code_simp
  have t: "re_coord_findall (upper (line_content ''G0 G1 X5 Z-2'')) =
      [(''X'', ''5''), (''Z'', ''-2'')]"
    by code_simp
  have p: "parse_value ''5'' = Some (Fin 5)" "parse_value ''-2'' = Some (Fin (- 2))"
    by code_simp+
  have c: "re_comment_search ''G0 G1 X5 Z-2'' = None"
    by code_simp
  have "case process_line ''OSP_Mill'' initial_state 1 ''G0 G1 X5 Z-2'' of
      Inr st' \<Rightarrow> True | Inl e \<Rightarrow> False"
    by code_simp
  then obtain st' where s: "process_line ''OSP_Mill'' initial_state 1 ''G0 G1 X5 Z-2'' = Inr st'"
    by (cases "process_line ''OSP_Mill'' initial_state 1 ''G0 G1 X5 Z-2''") auto
  from mode_tie_break [of "[]" True "''OSP_Mill''" initial_state 1 "''G0 G1 X5 Z-2''" st' "[0, 1]"] s g
  have m: "\<not> is_rapid_mode st'"
    "\<forall>a. rapid (current_block st') a =
        rapid (current_block (switch_block initial_state 1 ''G0 G1 X5 Z-2'')) a"
    "\<forall>a. cut (current_block st') a =
        cut (current_block (switch_block initial_state 1 ''G0 G1 X5 Z-2'')) a @
        coord_values a (re_coord_findall (upper (line_content ''G0 G1 X5 Z-2'')))"
    by simp_all
  have b: "current_block (switch_block initial_state k ''G0 G1 X5 Z-2'') = new_block ''Header / Setup''"
    for k
    by (simp add: switch_block_def c initial_state_def)
  from m(2) have "rapid (current_block st') AxisX = []" "rapid (current_block st') AxisZ = []"
    by (simp_all add: b new_block_def)
  moreover from m(3) have "cut (current_block st') AxisX = [Fin 5]"
    "cut (current_block st') AxisZ = [Fin (- 2)]"
    unfolding t by (simp_all add: b new_block_def p axis_of_key_def)
  ultimately show ?thesis
    using s m(1) g by blast
qed

section \<open>The latch and the mode over a whole scan\<close>

lemma block_errors_in_all:
  "b \<in> set (blocks_of st) \<Longrightarrow> e \<in> set (errors b) \<Longrightarrow> e \<in> set (all_errors st)"
  by (auto simp: all_errors_def)

lemma all_errors_initial [simp]: "all_errors initial_state = []"
  by (simp add: all_errors_def blocks_of_def initial_state_def new_block_def)

text \<open>
  C5.  The spindle-limit latch is monotonic.  When a scan that starts with the latch set
  returns, the latch is still set and no message has been added, however often G96
  occurs.  For a whole analysis under the lathe profile that returns its blocks: when
  line \<open>k + 1\<close> (index \<open>k\<close>) has G-code 50, every G96-without-G50 message cites a line
  number of at most \<open>k\<close>, so neither that line nor any later one writes a message.
\<close>

theorem latch_is_monotonic:
  "(scan m st i ls = Inr st' \<and> has_g50_global st \<longrightarrow>
      has_g50_global st' \<and> all_errors st' = all_errors st) \<and>
   (analyze code ''FANUC_Lathe'' = Inr bs \<and> k < length (split_on (CHR 0x0A) code) \<and>
    g_codes_of (line_content (split_on (CHR 0x0A) code ! k)) = Inr gs \<and> 50 \<in> set gs \<longrightarrow>
      (\<forall>b \<in> set bs. \<forall>n. G96_without_G50 n \<in> set (errors b) \<longrightarrow> n \<le> k))"
proof (rule conjI; rule impI)
  assume a: "scan m st i ls = Inr st' \<and> has_g50_global st"
  then have s: "scan m st i ls = Inr st'" and l: "has_g50_global st"
    by simp_all
  from scan_flags(2) [OF s] l have "has_g50_global st'" by simp
  with scan_errors_latched [OF s l]
  show "has_g50_global st' \<and> all_errors st' = all_errors st"
    by simp
next
  let ?ls = "split_on (CHR 0x0A) code"
  assume a: "analyze code ''FANUC_Lathe'' = Inr bs \<and> k < length ?ls \<and>
    g_codes_of (line_content (?ls ! k)) = Inr gs \<and> 50 \<in> set gs"
  then obtain st' where s: "scan ''FANUC_Lathe'' initial_state 0 ?ls = Inr st'"
    and bs: "bs = blocks_of st'"
    by (auto simp: analyze_def split: sum.splits)
  from a have g: "50 \<in> set (g_numbers (line_content (?ls ! k)))"
    by (auto dest: g_codes_of_Inr)
  have "n \<le> k" if b: "b \<in> set (blocks_of st')" and e: "G96_without_G50 n \<in> set (errors b)"
    for b n
  proof (rule ccontr)
    assume "\<not> n \<le> k"
    then have kn: "k < n" by simp
    from block_errors_in_all [OF b e] scan_errors_range [OF s]
    have "\<forall>j < n. 50 \<notin> set (g_numbers (line_content (?ls ! j)))"
      by auto
    with kn g show False by blast
  qed
  with bs show "\<forall>b \<in> set bs. \<forall>n. G96_without_G50 n \<in> set (errors b) \<longrightarrow> n \<le> k"
    by blast
qed

theorem latch_is_monotonic_witness:
  "1 < length (split_on (CHR 0x0A) (''G96 S100'' @ [CHR 0x0A] @ ''G50 S2000'' @ [CHR 0x0A] @ ''G96 S150'')) \<and>
   g_codes_of (line_content
     (split_on (CHR 0x0A) (''G96 S100'' @ [CHR 0x0A] @ ''G50 S2000'' @ [CHR 0x0A] @ ''G96 S150'') ! 1)) =
     Inr [50] \<and>
   (\<exists>bs. analyze (''G96 S100'' @ [CHR 0x0A] @ ''G50 S2000'' @ [CHR 0x0A] @ ''G96 S150'')
       ''FANUC_Lathe'' = Inr bs \<and>
      list_all (\<lambda>b. list_all (\<lambda>e. case e of G96_without_G50 n \<Rightarrow> n \<le> 1) (errors b)) bs \<and>
      concat (map errors bs) = [G96_without_G50 1])"
proof -
  let ?code = "''G96 S100'' @ [CHR 0x0A] @ ''G50 S2000'' @ [CHR 0x0A] @ ''G96 S150''"
  have h1: "1 < length (split_on (CHR 0x0A) ?code)"
    by code_simp
  have h2: "g_codes_of (line_content (split_on (CHR 0x0A) ?code ! 1)) = Inr [50]"
    by code_simp
  have ev: "case analyze ?code ''FANUC_Lathe'' of
      Inr bs \<Rightarrow> concat (map errors bs) = [G96_without_G50 1] | Inl e \<Rightarrow> False"
    by code_simp
  then obtain bs where bs: "analyze ?code ''FANUC_Lathe'' = Inr bs"
    by (cases "analyze ?code ''FANUC_Lathe''") auto
  from latch_is_monotonic [of "''FANUC_Lathe''" initial_state 0 "[]" initial_state ?code bs 1 "[50]"]
    h1 h2 bs
  have "\<forall>b \<in> set bs. \<forall>n. G96_without_G50 n \<in> set (errors b) \<longrightarrow> n \<le> 1"
    by simp
  then have "list_all (\<lambda>b. list_all (\<lambda>e. case e of G96_without_G50 n \<Rightarrow> n \<le> 1) (errors b)) bs"
    by (auto simp: list_all_iff split: message.splits)
  moreover from ev bs have "concat (map errors bs) = [G96_without_G50 1]"
    by simp
  ultimately show ?thesis
    using h1 h2 bs by blast
qed

text \<open>
  C10.  The scan state persists across block boundaries.  Starting a new block changes
  neither the motion mode nor the latch; when a run of lines has been scanned the mode
  is the fold of the mode update over the G-codes of the lines (the starting mode if
  there are none) and the latch is set exactly when it was set before or, under the
  lathe profile, a line had G-code 50 -- whatever blocks were opened in between; and a
  latch set in an earlier block suppresses every later message.
\<close>

theorem state_persists_across_blocks:
  "is_rapid_mode (switch_block st n line) = is_rapid_mode st \<and>
   has_g50_global (switch_block st n line) = has_g50_global st \<and>
   (scan m st i ls = Inr st' \<longrightarrow>
      is_rapid_mode st' =
        foldl (\<lambda>r l. update_mode (g_numbers (line_content l)) r) (is_rapid_mode st) ls \<and>
      has_g50_global st' =
        (has_g50_global st \<or>
         (m = ''FANUC_Lathe'' \<and> (\<exists>l \<in> set ls. 50 \<in> set (g_numbers (line_content l))))) \<and>
      (has_g50_global st \<longrightarrow> all_errors st' = all_errors st))"
proof (intro conjI impI)
  show "is_rapid_mode (switch_block st n line) = is_rapid_mode st"
    "has_g50_global (switch_block st n line) = has_g50_global st"
    by simp_all
next
  assume s: "scan m st i ls = Inr st'"
  from scan_flags [OF s]
  show "is_rapid_mode st' =
        foldl (\<lambda>r l. update_mode (g_numbers (line_content l)) r) (is_rapid_mode st) ls"
    "has_g50_global st' =
        (has_g50_global st \<or>
         (m = ''FANUC_Lathe'' \<and> (\<exists>l \<in> set ls. 50 \<in> set (g_numbers (line_content l)))))"
    by simp_all
next
  assume "scan m st i ls = Inr st'" "has_g50_global st"
  then show "all_errors st' = all_errors st"
    by (rule scan_errors_latched)
qed

theorem state_persists_across_blocks_witness:
  "\<exists>st'. scan ''FANUC_Lathe'' (initial_state\<lparr>has_g50_global := True, is_rapid_mode := False\<rparr>) 4
       [''(Finish pass) X5 G96''] = Inr st' \<and>
     \<not> is_rapid_mode st' \<and> has_g50_global st' \<and> all_errors st' = [] \<and>
     length (blocks_of st') = 2 \<and> cut (current_block st') AxisX = [Fin 5]"
proof -
  let ?st = "initial_state\<lparr>has_g50_global := True, is_rapid_mode := False\<rparr>"
  have g: "g_numbers (line_content ''(Finish pass) X5 G96'') = [96]"
    by code_simp
  have e: "all_errors ?st = []"
    by (simp add: all_errors_def blocks_of_def initial_state_def new_block_def)
  have ev: "case scan ''FANUC_Lathe'' ?st 4 [''(Finish pass) X5 G96''] of
      Inr st' \<Rightarrow> length (blocks_of st') = 2 \<and> cut (current_block st') AxisX = [Fin 5]
    | Inl x \<Rightarrow> False"
    by code_simp
  then obtain st' where s: "scan ''FANUC_Lathe'' ?st 4 [''(Finish pass) X5 G96''] = Inr st'"
    by (cases "scan ''FANUC_Lathe'' ?st 4 [''(Finish pass) X5 G96'']") auto
  from state_persists_across_blocks
    [of ?st 5 "''(Finish pass) X5 G96''" "''FANUC_Lathe''" 4 "[''(Finish pass) X5 G96'']" st'] s
  have p: "is_rapid_mode st' =
        foldl (\<lambda>r l. update_mode (g_numbers (line_content l)) r) (is_rapid_mode ?st)
          [''(Finish pass) X5 G96'']"
    "has_g50_global st' =
        (has_g50_global ?st \<or>
         (''FANUC_Lathe'' = ''FANUC_Lathe'' \<and>
          (\<exists>l \<in> set [''(Finish pass) X5 G96'']. 50 \<in> set (g_numbers (line_content l)))))"
    "has_g50_global ?st \<longrightarrow> all_errors st' = all_errors ?st"
    by simp_all
  from p(1) have "\<not> is_rapid_mode st'"
    by (simp add: g update_mode_def)
  moreover from p(2) have "has_g50_global st'"
    by simp
  moreover from p(3) e have "all_errors st' = []"
    by simp
  moreover from ev s have "length (blocks_of st') = 2 \<and> cut (current_block st') AxisX = [Fin 5]"
    by simp
  ultimately show ?thesis
    using s by blast
qed

end
